theory Spec2Isabelle
  imports Main "HOL-Library.Sublist" "HOL-Library.Word"
begin

section \<open>Library functions used by the control plane\<close>

text \<open>
  Go strings are byte sequences, so they are \<^typ>\<open>string\<close>s here.
  \<open>strings.Cut(s, sep)\<close> slices \<open>s\<close> around the first instance of \<open>sep\<close> and
  returns the text before it, the text after it and whether \<open>sep\<close> was found; when it is
  not found the result is \<open>(s, "", false)\<close>.
\<close>

fun Cut :: "string \<Rightarrow> string \<Rightarrow> string \<times> string \<times> bool" where
  "Cut [] sep = ([], [], sep = [])"
| "Cut (c # s) sep =
     (if prefix sep (c # s) then ([], drop (length sep) (c # s), True)
      else (case Cut s sep of (before, after, found) \<Rightarrow> (c # before, after, found)))"

text \<open>\<open>strings.Contains(s, substr)\<close>: \<open>substr\<close> occurs somewhere in \<open>s\<close>.\<close>

fun Contains :: "string \<Rightarrow> string \<Rightarrow> bool" where
  "Contains [] substr = (substr = [])"
| "Contains (c # s) substr = (prefix substr (c # s) \<or> Contains s substr)"

text \<open>
  \<open>url.Values\<close> and \<open>http.Header\<close> map a key to the list of its values; \<open>Get\<close>
  returns the first value of the key, and the empty string when the key has none.
\<close>

type_synonym Values = "string \<rightharpoonup> string list"

definition Get :: "Values \<Rightarrow> string \<Rightarrow> string" where
  "Get vs key = (case vs key of None \<Rightarrow> [] | Some [] \<Rightarrow> [] | Some (v # _) \<Rightarrow> v)"

text \<open>
  An incoming request, as far as the handlers read it: its headers, its parsed query
  string (\<open>r.URL.Query()\<close>) and the verdict of \<open>websocket.IsWebSocketUpgrade(r)\<close>.
\<close>

record Request =
  Header :: Values
  Query :: Values
  IsWebSocketUpgrade :: bool

text \<open>JSON values, and the structs of the package with their \<open>json\<close> field tags.\<close>

datatype JSON = JInt int | JString string | JObject "(string \<times> JSON) list"

record Traffic =
  Up :: "64 word"
  Down :: "64 word"

definition Traffic_json :: "Traffic \<Rightarrow> JSON" where
  "Traffic_json t = JObject [(''up'', JInt (sint (Up t))), (''down'', JInt (sint (Down t)))]"

record Log =
  Type :: string
  Payload :: string

definition Log_json :: "Log \<Rightarrow> JSON" where
  "Log_json l = JObject [(''type'', JString (Log.Type l)), (''payload'', JString (Log.Payload l))]"

record HTTPError =
  Message :: string

definition HTTPError_json :: "HTTPError \<Rightarrow> JSON" where
  "HTTPError_json e = JObject [(''message'', JString (Message e))]"

text \<open>
  Modelled from the spec: \<open>ErrUnauthorized\<close> is declared in a file of package
  \<open>route\<close> that is not among the sources; the specification gives the 401 answer the body
  \<open>{message: "Unauthorized"}\<close>.
\<close>

definition ErrUnauthorized :: HTTPError where
  "ErrUnauthorized = \<lparr>Message = ''Unauthorized''\<rparr>"

definition StatusOK :: nat where "StatusOK = 200"
definition StatusBadRequest :: nat where "StatusBadRequest = 400"
definition StatusUnauthorized :: nat where "StatusUnauthorized = 401"

text \<open>\<open>websocket.TextMessage\<close> and \<open>time.Second\<close> (in nanoseconds).\<close>

definition TextMessage :: nat where "TextMessage = 1"
definition Second :: nat where "Second = 1000000000"

text \<open>
  What a handler does to its response writer is recorded as the sequence of calls it
  makes: \<open>w.Header().Set\<close>, \<open>render.Status\<close>, \<open>render.JSON\<close>, \<open>w.Write\<close>,
  \<open>w.(http.Flusher).Flush\<close>, \<open>upgrader.Upgrade\<close>, \<open>wsConn.WriteMessage\<close>,
  \<open>time.NewTicker\<close> and the deferred \<open>tick.Stop\<close>.
\<close>

datatype Effect =
    HeaderSet string string
  | RenderStatus nat
  | RenderJSON JSON
  | Write string
  | Flush
  | Upgrade
  | WriteMessage nat string
  | NewTicker nat
  | TickerStop

type_synonym Handler = "Request \<Rightarrow> Effect list"

section \<open>Package state and \<open>Start\<close>\<close>

text \<open>
  The router that \<open>Start\<close> builds: the middlewares of the root, the middlewares and the
  routes of the authenticated group, and the not-found handler.
\<close>

record Router =
  middlewares :: "string list"
  group_middlewares :: "string list"
  routes :: "(string \<times> string \<times> string) list"
  notFound :: "string option"

text \<open>
  The package variables \<open>serverSecret\<close>, \<open>serverAddr\<close> and \<open>uiPath\<close>, together
  with the servers that have been started (address and router handed to \<open>Serve\<close>) and
  the lines logged.
\<close>

record State =
  serverSecret :: string
  serverAddr :: string
  uiPath :: string
  serving :: "(string \<times> Router) list"
  logged :: "string list"

text \<open>
  The outside world of \<open>Start\<close>: \<open>net.Listen("tcp", addr)\<close> fails with an error or
  yields a listener with its bound address (\<open>l.Addr().String()\<close>); \<open>wtf.Serve\<close> and
  \<open>http.Serve\<close> return an error or nil when they stop serving.
\<close>

record Net =
  Listen :: "string \<Rightarrow> string + string"
  wtfServe :: "string \<Rightarrow> string option"
  httpServe :: "string \<Rightarrow> string option"

definition SetUIPath :: "string \<Rightarrow> State \<Rightarrow> State" where
  "SetUIPath path st = st\<lparr>uiPath := path\<rparr>"

definition newRouter :: "string \<Rightarrow> Router" where
  "newRouter ui =
     \<lparr>middlewares = [''cors''],
      group_middlewares = [''authentication''],
      routes =
        [(''GET'', ''/logs'', ''getLogs''),
         (''GET'', ''/traffic'', ''traffic''),
         (''GET'', ''/version'', ''version''),
         (''MOUNT'', ''/configs'', ''configRouter''),
         (''MOUNT'', ''/proxies'', ''proxyRouter''),
         (''MOUNT'', ''/rules'', ''ruleRouter''),
         (''MOUNT'', ''/connections'', ''connectionRouter''),
         (''MOUNT'', ''/providers/proxies'', ''proxyProviderRouter'')],
      notFound = (if ui \<noteq> [] then Some ui else None)\<rparr>"

definition Start :: "Net \<Rightarrow> string \<Rightarrow> string \<Rightarrow> State \<Rightarrow> State" where
  "Start net addr secret st =
     (if serverAddr st \<noteq> [] then st
      else
        (let st1 = st\<lparr>serverAddr := addr, serverSecret := secret\<rparr>;
             r = newRouter (uiPath st1)
         in if Contains addr ''://'' then
              (let st2 = st1\<lparr>serving := serving st1 @ [(addr, r)]\<rparr>
               in case wtfServe net addr of
                    Some err \<Rightarrow>
                      st2\<lparr>logged := logged st2 @ [''External controller serve error: '' @ err]\<rparr>
                  | None \<Rightarrow> st2)
            else
              (case Listen net addr of
                 Inl err \<Rightarrow>
                   st1\<lparr>logged := logged st1 @ [''External controller listen error: '' @ err]\<rparr>
               | Inr bound \<Rightarrow>
                   (let st2 = st1\<lparr>serverAddr := bound\<rparr>;
                        st3 = st2\<lparr>logged := logged st2 @ [''RESTful API listening at: '' @ bound]\<rparr>;
                        st4 = st3\<lparr>serving := serving st3 @ [(bound, r)]\<rparr>
                    in case httpServe net bound of
                         Some err \<Rightarrow>
                           st4\<lparr>logged := logged st4 @ [''External controller serve error: '' @ err]\<rparr>
                       | None \<Rightarrow> st4))))"

section \<open>The authentication middleware\<close>

definition authentication :: "State \<Rightarrow> Handler \<Rightarrow> Handler" where
  "authentication st next r =
     (if serverSecret st = [] then next r
      else if IsWebSocketUpgrade r \<and> Get (Query r) ''token'' \<noteq> [] then
        (let token = Get (Query r) ''token''
         in if token \<noteq> serverSecret st
            then [RenderStatus StatusUnauthorized, RenderJSON (HTTPError_json ErrUnauthorized)]
            else next r)
      else
        (let header = Get (Header r) ''Authorization''
         in case Cut header '' '' of
              (bearer, token, found) \<Rightarrow>
                (let hasInvalidHeader = (bearer \<noteq> ''Bearer'');
                     hasInvalidSecret = (\<not> found \<or> token \<noteq> serverSecret st)
                 in if hasInvalidHeader \<or> hasInvalidSecret
                    then [RenderStatus StatusUnauthorized, RenderJSON (HTTPError_json ErrUnauthorized)]
                    else next r)))"

section \<open>The streaming handlers\<close>

text \<open>
  A log event of the log package (\<open>type LogLevel int\<close>).
\<close>

type_synonym LogLevel = int

record Event =
  LogLevel :: LogLevel
  Payload :: string

text \<open>
  What the handlers take from outside package \<open>route\<close>: the table
  \<open>log.LogLevelMapping\<close> and the method \<open>Event.Type\<close> of the log package, the value
  \<open>ErrBadRequest\<close> (declared in a file that is not among the sources), the JSON
  marshaller behind \<open>json.Encoder\<close> (which may fail), whether the WebSocket handshake of
  \<open>upgrader.Upgrade\<close> succeeds on this connection, and whether the \<open>k\<close>-th write on the
  connection (counted from 0) returns an error.
\<close>

record Env =
  LogLevelMapping :: "string \<rightharpoonup> LogLevel"
  EventType :: "Event \<Rightarrow> string"
  ErrBadRequest :: HTTPError
  Marshal :: "JSON \<Rightarrow> string option"
  UpgradeOK :: bool
  WriteErr :: "nat \<Rightarrow> bool"

text \<open>
  \<open>json.NewEncoder(buf).Encode(v)\<close> on a buffer that was just reset: the buffer holds
  the JSON encoding of \<open>v\<close> followed by a newline character, or the call fails.
\<close>

definition Encode :: "Env \<Rightarrow> JSON \<Rightarrow> string option" where
  "Encode env v = map_option (\<lambda>b. b @ [CHR 0x0A]) (Marshal env v)"

text \<open>
  The loop of \<open>traffic\<close> over the ticks it receives from the ticker; each tick is given
  with the reading \<open>t.Now()\<close> of the statistic manager at that moment. \<open>wsConn\<close> tells
  whether a WebSocket connection was set up, \<open>k\<close> counts the writes made so far. The end
  of the list is the end of the observation: the ticker's channel is never closed.
\<close>

fun traffic_loop :: "Env \<Rightarrow> bool \<Rightarrow> nat \<Rightarrow> (64 word \<times> 64 word) list \<Rightarrow> Effect list" where
  "traffic_loop env wsConn k [] = []"
| "traffic_loop env wsConn k ((up, down) # ticks) =
     (case Encode env (Traffic_json \<lparr>Up = up, Down = down\<rparr>) of
        None \<Rightarrow> []
      | Some buf \<Rightarrow>
          (if \<not> wsConn then [Write buf, Flush] else [WriteMessage TextMessage buf]) @
          (if WriteErr env k then [] else traffic_loop env wsConn (Suc k) ticks))"

definition traffic :: "Env \<Rightarrow> Request \<Rightarrow> (64 word \<times> 64 word) list \<Rightarrow> Effect list" where
  "traffic env r ticks =
     (if IsWebSocketUpgrade r \<and> \<not> UpgradeOK env then [Upgrade]
      else
        (let wsConn = IsWebSocketUpgrade r
         in (if wsConn then [Upgrade] else []) @
            (if \<not> wsConn
             then [HeaderSet ''Content-Type'' ''application/json'', RenderStatus StatusOK]
             else []) @
            [NewTicker Second] @ traffic_loop env wsConn 0 ticks @ [TickerStop]))"

text \<open>
  The channel \<open>ch\<close> of \<open>getLogs\<close> has room for 1024 events. The goroutine forwards
  each event of the subscription into it with a \<open>select\<close> that has a \<open>default\<close>
  branch: the event is queued when there is room and is dropped otherwise.
\<close>

definition capacity :: nat where "capacity = 1024"

text \<open>
  A send \<open>ch <- e\<close> is ready when the channel has room; otherwise it would block,
  which is \<open>None\<close>. \<open>forward\<close> is the body of the goroutine's loop: the \<open>select\<close>
  takes the send when it is ready and the empty \<open>default\<close> branch otherwise.
\<close>

definition send :: "Event list \<Rightarrow> Event \<Rightarrow> Event list option" where
  "send ch e = (if length ch < capacity then Some (ch @ [e]) else None)"

definition forward :: "Event list \<Rightarrow> Event \<Rightarrow> Event list" where
  "forward ch e = (case send ch e of Some ch' \<Rightarrow> ch' | None \<Rightarrow> ch)"

text \<open>
  The goroutine and the handler's loop run concurrently; a run is an interleaving of two
  kinds of steps: the subscription delivers an event, which the goroutine forwards, or
  the handler's loop receives the next event from the channel (a receive on an empty
  channel waits, so it is no step). \<open>chan_run\<close> gives the events the loop receives, in
  order, and the content of the channel at the end.
\<close>

datatype step = Publish Event | Receive

fun chan_run :: "Event list \<Rightarrow> step list \<Rightarrow> Event list \<times> Event list" where
  "chan_run ch [] = ([], ch)"
| "chan_run ch (Publish e # ss) = chan_run (forward ch e) ss"
| "chan_run ch (Receive # ss) =
     (case ch of
        [] \<Rightarrow> chan_run [] ss
      | e # ch' \<Rightarrow> (case chan_run ch' ss of (received, rest) \<Rightarrow> (e # received, rest)))"

fun published :: "step list \<Rightarrow> Event list" where
  "published [] = []"
| "published (Publish e # ss) = e # published ss"
| "published (Receive # ss) = published ss"

text \<open>
  The loop of \<open>getLogs\<close> over the events it receives from the channel. The
  subscription \<open>log.Subscribe()\<close> and its deferred cancellation are the run itself: the
  events published in a run are the events of the subscription.
\<close>

fun getLogs_loop :: "Env \<Rightarrow> LogLevel \<Rightarrow> bool \<Rightarrow> nat \<Rightarrow> Event list \<Rightarrow> Effect list" where
  "getLogs_loop env level wsConn k [] = []"
| "getLogs_loop env level wsConn k (log # rest) =
     (if LogLevel log < level then getLogs_loop env level wsConn k rest
      else
        (case Encode env (Log_json \<lparr>Log.Type = EventType env log, Log.Payload = Event.Payload log\<rparr>) of
           None \<Rightarrow> []
         | Some buf \<Rightarrow>
             (if \<not> wsConn then [Write buf, Flush] else [WriteMessage TextMessage buf]) @
             (if WriteErr env k then [] else getLogs_loop env level wsConn (Suc k) rest)))"

text \<open>The level text of a request: the \<open>level\<close> parameter, \<open>info\<close> when it is empty.\<close>

definition levelText :: "Request \<Rightarrow> string" where
  "levelText r =
     (let levelText = Get (Query r) ''level''
      in if levelText = [] then ''info'' else levelText)"

definition getLogs :: "Env \<Rightarrow> Request \<Rightarrow> step list \<Rightarrow> Effect list" where
  "getLogs env r steps =
     (case LogLevelMapping env (levelText r) of
        None \<Rightarrow> [RenderStatus StatusBadRequest, RenderJSON (HTTPError_json (ErrBadRequest env))]
      | Some level \<Rightarrow>
          (if IsWebSocketUpgrade r \<and> \<not> UpgradeOK env then [Upgrade]
           else
             (let wsConn = IsWebSocketUpgrade r
              in (if wsConn then [Upgrade] else []) @
                 (if \<not> wsConn
                  then [HeaderSet ''Content-Type'' ''application/json'', RenderStatus StatusOK]
                  else []) @
                 getLogs_loop env level wsConn 0 (fst (chan_run [] steps)))))"

text \<open>The buffers a handler sent, in order, whichever way it sent them.\<close>

fun streamed :: "Effect list \<Rightarrow> string list" where
  "streamed [] = []"
| "streamed (Write buf # es) = buf # streamed es"
| "streamed (WriteMessage t buf # es) = buf # streamed es"
| "streamed (e # es) = streamed es"

section \<open>Inbound adapters\<close>

text \<open>
  Modelled from the spec: package \<open>constant\<close> is not among the sources. The metadata of
  a connection has the fields of the specification's data model; the four fields that
  \<open>NewHTTP\<close> and \<open>NewSocket\<close> assign carry the names they have there, the others the
  specification's. An IP address is a byte slice, empty when unset.
\<close>

datatype NetWork = TCP | UDP

datatype Type = HTTP | SOCKS4 | SOCKS5 | REDIR | TPROXY | TUN

type_synonym IP = "8 word list"

record Metadata =
  NetWork :: NetWork
  Type :: Type
  SrcIP :: IP
  SrcPort :: string
  dst_host :: string
  dst_ip :: IP
  dst_port :: string
  process_name :: string

text \<open>
  \<open>net.Addr\<close> and \<open>net.Conn\<close>, by the methods that are called on them. Interface
  values are taken to be non-nil.
\<close>

record Addr =
  Network :: string
  String :: string

record Conn =
  LocalAddr :: Addr
  RemoteAddr :: Addr

text \<open>
  The helpers \<open>parseSocksAddr\<close> and \<open>parseAddr\<close> of package \<open>inbound\<close> and the
  constructor \<open>context.NewConnContext\<close> are not among the sources; the adapters take
  them as parameters. \<open>parseAddr\<close> returns an address and a port, or an error;
  \<open>NewConnContext\<close> returns a pointer, \<open>None\<close> standing for nil.
\<close>

record 'ctx Deps =
  parseSocksAddr :: "8 word list \<Rightarrow> Metadata"
  parseAddr :: "string \<Rightarrow> string + (IP \<times> string)"
  NewConnContext :: "Conn \<Rightarrow> Metadata \<Rightarrow> 'ctx option"

definition NewHTTP :: "'ctx Deps \<Rightarrow> 8 word list \<Rightarrow> Addr \<Rightarrow> Conn \<Rightarrow> 'ctx option" where
  "NewHTTP d target source conn =
     (let metadata = parseSocksAddr d target;
          metadata = metadata\<lparr>NetWork := TCP\<rparr>;
          metadata = metadata\<lparr>Metadata.Type := HTTP\<rparr>;
          metadata =
            (case parseAddr d (String source) of
               Inr (ip, port) \<Rightarrow> metadata\<lparr>SrcIP := ip, SrcPort := port\<rparr>
             | Inl err \<Rightarrow> metadata)
      in NewConnContext d conn metadata)"

definition NewSocket :: "'ctx Deps \<Rightarrow> 8 word list \<Rightarrow> Conn \<Rightarrow> Type \<Rightarrow> 'ctx option" where
  "NewSocket d target conn source =
     (let metadata = parseSocksAddr d target;
          metadata = metadata\<lparr>NetWork := TCP\<rparr>;
          metadata = metadata\<lparr>Metadata.Type := source\<rparr>;
          metadata =
            (case parseAddr d (String (RemoteAddr conn)) of
               Inr (ip, port) \<Rightarrow> metadata\<lparr>SrcIP := ip, SrcPort := port\<rparr>
             | Inl err \<Rightarrow> metadata)
      in NewConnContext d conn metadata)"

section \<open>The remaining handler, the specification's readings and sample inputs\<close>

text \<open>\<open>version\<close> renders the version constant \<open>C.Version\<close>, given as \<open>v\<close>.\<close>

definition version :: "string \<Rightarrow> Handler" where
  "version v r = [RenderJSON (JObject [(''version'', JString v)])]"

text \<open>
  The specification's reading of the authentication rule: a request is admitted when its
  \<open>Authorization\<close> header is \<open>Bearer <secret>\<close>, or when it is a WebSocket upgrade
  whose \<open>token\<close> parameter equals the secret.
\<close>

definition spec_admits :: "string \<Rightarrow> Request \<Rightarrow> bool" where
  "spec_admits secret r \<longleftrightarrow>
     Get (Header r) ''Authorization'' = ''Bearer '' @ secret \<or>
     (IsWebSocketUpgrade r \<and> Get (Query r) ''token'' = secret)"

text \<open>
  The specification's reading of a publish on the subscriber's queue: when the queue is
  full the oldest event is dropped and the new one is queued.
\<close>

definition spec_forward :: "Event list \<Rightarrow> Event \<Rightarrow> Event list" where
  "spec_forward ch e = (if length ch < capacity then ch @ [e] else tl ch @ [e])"


text \<open>
  A plain marshaller for the sample environment: decimal integers, strings between
  quotes as they are, objects with their fields in order.
\<close>

fun digits :: "nat \<Rightarrow> string" where
  "digits n =
     (if n < 10 then [''0123456789'' ! n]
      else digits (n div 10) @ [''0123456789'' ! (n mod 10)])"

definition itoa :: "int \<Rightarrow> string" where
  "itoa i = (if i < 0 then CHR ''-'' # digits (nat (- i)) else digits (nat i))"

fun commas :: "string list \<Rightarrow> string" where
  "commas [] = []"
| "commas [x] = x"
| "commas (x # xs) = x @ '','' @ commas xs"

primrec plain_marshal :: "JSON \<Rightarrow> string" where
  "plain_marshal (JInt i) = itoa i"
| "plain_marshal (JString s) = [CHR 0x22] @ s @ [CHR 0x22]"
| "plain_marshal (JObject kvs) =
     ''{'' @ commas (map (\<lambda>(k, v). [CHR 0x22] @ k @ [CHR 0x22] @ '':'' @ v)
                       (map (map_prod id plain_marshal) kvs)) @ ''}''"

text \<open>
  A sample environment: five log levels from \<open>debug\<close> (0) to \<open>silent\<close> (4), every
  handshake succeeds and no write fails; and the same environment with failing
  handshakes.
\<close>

definition level_name :: "LogLevel \<Rightarrow> string" where
  "level_name l =
     (if l = 0 then ''debug'' else if l = 1 then ''info'' else if l = 2 then ''warning''
      else if l = 3 then ''error'' else ''unknown'')"

definition env0 :: Env where
  "env0 =
     \<lparr>LogLevelMapping =
        [''debug'' \<mapsto> 0, ''info'' \<mapsto> 1, ''warning'' \<mapsto> 2, ''error'' \<mapsto> 3, ''silent'' \<mapsto> 4],
      EventType = (\<lambda>e. level_name (LogLevel e)),
      ErrBadRequest = \<lparr>Message = ''Body invalid''\<rparr>,
      Marshal = (\<lambda>v. Some (plain_marshal v)),
      UpgradeOK = True,
      WriteErr = (\<lambda>k. False)\<rparr>"

definition env1 :: Env where
  "env1 = env0\<lparr>UpgradeOK := False\<rparr>"

definition st0 :: State where
  "st0 = \<lparr>serverSecret = ''s'', serverAddr = ''127.0.0.1:9090'', uiPath = [], serving = [],
          logged = []\<rparr>"

definition st_open :: State where
  "st_open = \<lparr>serverSecret = [], serverAddr = ''127.0.0.1:9090'', uiPath = [], serving = [],
              logged = []\<rparr>"

definition net0 :: Net where
  "net0 = \<lparr>Listen = (\<lambda>a. Inr a), wtfServe = (\<lambda>a. None), httpServe = (\<lambda>a. Some ''closed'')\<rparr>"

text \<open>
  Sample requests: a WebSocket upgrade that carries the right bearer header and a wrong
  \<open>token\<close> parameter, a plain request with the right bearer header, a plain request
  without query, a WebSocket upgrade without query, a request for an unknown log level,
  a request with an empty \<open>level\<close> parameter, and a WebSocket upgrade with the right
  \<open>token\<close> parameter and no header.
\<close>

definition req_ws_wrong_token :: Request where
  "req_ws_wrong_token =
     \<lparr>Header = [''Authorization'' \<mapsto> [''Bearer s'']], Query = [''token'' \<mapsto> [''x'']],
      IsWebSocketUpgrade = True\<rparr>"

definition req_bearer :: Request where
  "req_bearer =
     \<lparr>Header = [''Authorization'' \<mapsto> [''Bearer s'']], Query = Map.empty,
      IsWebSocketUpgrade = False\<rparr>"

definition req_plain :: Request where
  "req_plain = \<lparr>Header = Map.empty, Query = Map.empty, IsWebSocketUpgrade = False\<rparr>"

definition req_ws :: Request where
  "req_ws = \<lparr>Header = Map.empty, Query = Map.empty, IsWebSocketUpgrade = True\<rparr>"


definition req_empty_level :: Request where
  "req_empty_level =
     \<lparr>Header = Map.empty, Query = [''level'' \<mapsto> [[]]], IsWebSocketUpgrade = False\<rparr>"

definition req_ws_token :: Request where
  "req_ws_token =
     \<lparr>Header = Map.empty, Query = [''token'' \<mapsto> [''s'']], IsWebSocketUpgrade = True\<rparr>"

text \<open>Two sample events at level \<open>info\<close>, and one at level \<open>debug\<close>.\<close>

definition ev_a :: Event where "ev_a = \<lparr>LogLevel = 1, Payload = ''a''\<rparr>"
definition ev_b :: Event where "ev_b = \<lparr>LogLevel = 1, Payload = ''b''\<rparr>"
definition ev_d :: Event where "ev_d = \<lparr>LogLevel = 0, Payload = ''d''\<rparr>"


text \<open>
  Sample helpers for the inbound adapters: the target is not inspected, the destination
  is fixed, and a source address parses when it is \<open>1.2.3.4:5678\<close>.
\<close>

definition deps0 :: "(Conn \<times> Metadata) Deps" where
  "deps0 =
     \<lparr>parseSocksAddr = (\<lambda>t.
        \<lparr>NetWork = UDP, Type = SOCKS5, SrcIP = [], SrcPort = [], dst_host = ''example.com'',
         dst_ip = [], dst_port = ''443'', process_name = []\<rparr>),
      parseAddr = (\<lambda>a. if a = ''1.2.3.4:5678'' then Inr ([1, 2, 3, 4], ''5678'')
                         else Inl ''addr error''),
      NewConnContext = (\<lambda>c m. Some (c, m))\<rparr>"

definition addr_ok :: Addr where
  "addr_ok = \<lparr>Network = ''tcp'', String = ''1.2.3.4:5678''\<rparr>"

definition addr_bad :: Addr where
  "addr_bad = \<lparr>Network = ''unix'', String = ''@''\<rparr>"

definition conn_ok :: Conn where
  "conn_ok = \<lparr>LocalAddr = addr_ok, RemoteAddr = addr_ok\<rparr>"

definition conn_bad :: Conn where
  "conn_bad = \<lparr>LocalAddr = addr_ok, RemoteAddr = addr_bad\<rparr>"

section \<open>Facts about the library functions\<close>

lemma Cut_single_hit: "Cut (c # s) [c] = ([], s, True)"
  by simp

lemma Cut_single_miss:
  "x \<noteq> c \<Longrightarrow> Cut (x # s) [c] = (case Cut s [c] of (b, a, f) \<Rightarrow> (x # b, a, f))"
  by simp

text \<open>
  Cutting at a one-byte separator finds the separator exactly when the string is the
  part before, the separator and the part after, the part before being free of it.
\<close>

lemma Cut_single_iff: "Cut s [c] = (b, a, True) \<longleftrightarrow> s = b @ c # a \<and> c \<notin> set b"
proof (induction s arbitrary: b)
  case Nil
  then show ?case by simp
next
  case (Cons x s)
  show ?case
  proof (cases "x = c")
    case True
    have "Cut (x # s) [c] = ([], s, True)" using True Cut_single_hit by simp
    then show ?thesis using True by (cases b) auto
  next
    case False
    obtain b' a' f' where c: "Cut s [c] = (b', a', f')" by (cases "Cut s [c]") auto
    have e: "Cut (x # s) [c] = (x # b', a', f')"
      using Cut_single_miss [OF False, of s] c by simp
    show ?thesis
    proof (cases b)
      case Nil
      then show ?thesis using e False by auto
    next
      case (Cons y b'')
      have "Cut s [c] = (b'', a, True) \<longleftrightarrow> s = b'' @ c # a \<and> c \<notin> set b''"
        by (rule Cons.IH)
      then show ?thesis using e c Cons False by auto
    qed
  qed
qed

lemma Cut_Bearer:
  "(case Cut header '' '' of
      (bearer, token, found) \<Rightarrow> bearer = ''Bearer'' \<and> found \<and> token = secret)
     \<longleftrightarrow> header = ''Bearer '' @ secret"
proof -
  obtain b a f where c: "Cut header '' '' = (b, a, f)" by (cases "Cut header '' ''") auto
  have "(b = ''Bearer'' \<and> f \<and> a = secret) \<longleftrightarrow> Cut header '' '' = (''Bearer'', secret, True)"
    using c by auto
  also have "\<dots> \<longleftrightarrow> header = ''Bearer'' @ CHR '' '' # secret \<and> CHR '' '' \<notin> set ''Bearer''"
    by (rule Cut_single_iff)
  also have "\<dots> \<longleftrightarrow> header = ''Bearer '' @ secret" by simp
  finally show ?thesis using c by simp
qed

section \<open>Facts about the channel of \<open>getLogs\<close>\<close>

lemma forward_eq: "forward ch e = (if length ch < capacity then ch @ [e] else ch)"
  by (simp add: forward_def send_def)


lemma forward_length: "length ch \<le> capacity \<Longrightarrow> length (forward ch e) \<le> capacity"
  by (simp add: forward_eq)

lemma chan_run_bounded:
  "length ch \<le> capacity \<Longrightarrow> length (snd (chan_run ch steps)) \<le> capacity"
proof (induction steps arbitrary: ch)
  case Nil
  then show ?case by simp
next
  case (Cons s steps)
  show ?case
  proof (cases s)
    case (Publish e)
    then show ?thesis using Cons.IH [of "forward ch e"] forward_length [OF Cons.prems] by simp
  next
    case Receive
    show ?thesis
    proof (cases ch)
      case Nil
      then show ?thesis using Receive Cons.IH [of "[]"] by simp
    next
      case (Cons x ch')
      then show ?thesis using Receive Cons.IH [of ch'] Cons.prems
        by (simp add: split_beta)
    qed
  qed
qed

lemma chan_run_subseq_all:
  "subseq (fst (chan_run ch steps) @ snd (chan_run ch steps)) (ch @ published steps)"
proof (induction steps arbitrary: ch)
  case Nil
  then show ?case by simp
next
  case (Cons s steps)
  show ?case
  proof (cases s)
    case (Publish e)
    have "subseq (forward ch e @ published steps) (ch @ e # published steps)"
      by (simp add: forward_eq subseq_append' list_emb_Cons)
    then show ?thesis using Publish Cons.IH [of "forward ch e"] subseq_order.order_trans
      by fastforce
  next
    case Receive
    show ?thesis
    proof (cases ch)
      case Nil
      then show ?thesis using Receive Cons.IH [of "[]"] by simp
    next
      case (Cons x ch')
      then show ?thesis using Receive Cons.IH [of ch']
        by (simp add: split_beta)
    qed
  qed
qed

lemma chan_run_subseq: "subseq (fst (chan_run ch steps)) (ch @ published steps)"
proof -
  have "subseq (fst (chan_run ch steps)) (fst (chan_run ch steps) @ snd (chan_run ch steps))"
    by (rule subseq_rev_drop_many) simp
  then show ?thesis using chan_run_subseq_all [of ch steps] subseq_order.order_trans by blast
qed


section \<open>Facts about the loops of the streaming handlers\<close>

lemma Encode_line: "Encode env v = Some b \<Longrightarrow> \<exists>j. Marshal env v = Some j \<and> b = j @ [CHR 0x0A]"
  by (auto simp add: Encode_def)

lemma traffic_loop_http:
  "traffic_loop env False k ticks =
     concat (map (\<lambda>b. [Write b, Flush]) (streamed (traffic_loop env False k ticks)))"
  by (induction ticks arbitrary: k) (auto split: option.splits)

lemma traffic_loop_ws:
  "traffic_loop env True k ticks =
     map (WriteMessage TextMessage) (streamed (traffic_loop env True k ticks))"
  by (induction ticks arbitrary: k) (auto split: option.splits)

lemma traffic_loop_lines:
  "b \<in> set (streamed (traffic_loop env ws k ticks)) \<Longrightarrow>
   \<exists>v j. Marshal env v = Some j \<and> b = j @ [CHR 0x0A]"
proof (induction ticks arbitrary: k)
  case Nil
  then show ?case by simp
next
  case (Cons t ticks)
  obtain up down where t: "t = (up, down)" by (cases t) auto
  show ?case
  proof (cases "Encode env (Traffic_json \<lparr>Up = up, Down = down\<rparr>)")
    case None
    then show ?thesis using Cons.prems t by simp
  next
    case (Some buf)
    have "b = buf \<or> b \<in> set (streamed (traffic_loop env ws (Suc k) ticks))"
      using Cons.prems t Some by (auto split: if_splits)
    then show ?thesis using Encode_line [OF Some] Cons.IH by blast
  qed
qed

lemma getLogs_loop_http:
  "getLogs_loop env level False k evs =
     concat (map (\<lambda>b. [Write b, Flush]) (streamed (getLogs_loop env level False k evs)))"
  by (induction evs arbitrary: k) (auto split: option.splits)

lemma getLogs_loop_ws:
  "getLogs_loop env level True k evs =
     map (WriteMessage TextMessage) (streamed (getLogs_loop env level True k evs))"
  by (induction evs arbitrary: k) (auto split: option.splits)

lemma getLogs_loop_lines:
  "b \<in> set (streamed (getLogs_loop env level ws k evs)) \<Longrightarrow>
   \<exists>v j. Marshal env v = Some j \<and> b = j @ [CHR 0x0A]"
proof (induction evs arbitrary: k)
  case Nil
  then show ?case by simp
next
  case (Cons e evs)
  show ?case
  proof (cases "LogLevel e < level")
    case True
    then show ?thesis using Cons by simp
  next
    case False
    show ?thesis
    proof (cases "Encode env (Log_json \<lparr>Log.Type = EventType env e, Log.Payload = Event.Payload e\<rparr>)")
      case None
      then show ?thesis using Cons.prems False by simp
    next
      case (Some buf)
      have "b = buf \<or> b \<in> set (streamed (getLogs_loop env level ws (Suc k) evs))"
        using Cons.prems False Some by (auto split: if_splits)
      then show ?thesis using Encode_line [OF Some] Cons.IH by blast
    qed
  qed
qed

lemma getLogs_loop_streamed:
  "\<exists>n. map Some (streamed (getLogs_loop env level ws k evs)) =
        map (\<lambda>e. Encode env (Log_json \<lparr>Log.Type = EventType env e, Log.Payload = Event.Payload e\<rparr>))
          (take n (filter (\<lambda>e. level \<le> LogLevel e) evs))"
proof (induction evs arbitrary: k)
  case Nil
  then show ?case by simp
next
  case (Cons e evs)
  let ?enc = "\<lambda>e. Encode env (Log_json \<lparr>Log.Type = EventType env e, Log.Payload = Event.Payload e\<rparr>)"
  show ?case
  proof (cases "LogLevel e < level")
    case True
    then show ?thesis using Cons.IH [of k] by simp
  next
    case False
    show ?thesis
    proof (cases "?enc e")
      case None
      have "map Some (streamed (getLogs_loop env level ws k (e # evs))) =
            map ?enc (take 0 (filter (\<lambda>e. level \<le> LogLevel e) (e # evs)))"
        using None False by simp
      then show ?thesis by blast
    next
      case (Some buf)
      show ?thesis
      proof (cases "WriteErr env k")
        case True
        have "map Some (streamed (getLogs_loop env level ws k (e # evs))) =
              map ?enc (take 1 (filter (\<lambda>e. level \<le> LogLevel e) (e # evs)))"
          using Some False True by (cases ws) simp_all
        then show ?thesis by blast
      next
        case w: False
        obtain n where n: "map Some (streamed (getLogs_loop env level ws (Suc k) evs)) =
            map ?enc (take n (filter (\<lambda>e. level \<le> LogLevel e) evs))"
          using Cons.IH [of "Suc k"] by blast
        have "map Some (streamed (getLogs_loop env level ws k (e # evs))) =
              map ?enc (take (Suc n) (filter (\<lambda>e. level \<le> LogLevel e) (e # evs)))"
          using Some False w n by (cases ws) simp_all
        then show ?thesis by blast
      qed
    qed
  qed
qed


lemma traffic_loop_streamed:
  "\<exists>n\<le>length ticks.
     map Some (streamed (traffic_loop env ws k ticks)) =
       map (\<lambda>(up, down). Encode env (Traffic_json \<lparr>Up = up, Down = down\<rparr>)) (take n ticks) \<and>
     (n < length ticks \<longrightarrow>
        (case ticks ! n of (up, down) \<Rightarrow> Encode env (Traffic_json \<lparr>Up = up, Down = down\<rparr>)) = None \<or>
        (0 < n \<and> WriteErr env (k + n - 1))) \<and>
     (\<forall>j. Suc j < n \<longrightarrow> \<not> WriteErr env (k + j))"
proof (induction ticks arbitrary: k)
  case Nil
  then show ?case by simp
next
  case (Cons t ticks)
  let ?enc = "\<lambda>(up, down). Encode env (Traffic_json \<lparr>Up = up, Down = down\<rparr>)"
  obtain up down where t: "t = (up, down)" by (cases t) auto
  show ?case
  proof (cases "?enc t")
    case None
    have "map Some (streamed (traffic_loop env ws k (t # ticks))) = map ?enc (take 0 (t # ticks))"
      using None t by simp
    moreover have "?enc ((t # ticks) ! 0) = None" using None by simp
    ultimately show ?thesis by (intro exI [of _ 0]) simp
  next
    case (Some buf)
    show ?thesis
    proof (cases "WriteErr env k")
      case True
      have "map Some (streamed (traffic_loop env ws k (t # ticks))) = map ?enc (take 1 (t # ticks))"
        using Some True t by (cases ws) simp_all
      then show ?thesis using True by (intro exI [of _ 1]) simp
    next
      case False
      obtain n where n: "n \<le> length ticks"
        and s: "map Some (streamed (traffic_loop env ws (Suc k) ticks)) = map ?enc (take n ticks)"
        and f: "n < length ticks \<longrightarrow> ?enc (ticks ! n) = None \<or> (0 < n \<and> WriteErr env (Suc k + n - 1))"
        and w: "\<forall>j. Suc j < n \<longrightarrow> \<not> WriteErr env (Suc k + j)"
        using Cons.IH [of "Suc k"] by blast
      have a: "map Some (streamed (traffic_loop env ws k (t # ticks))) =
               map ?enc (take (Suc n) (t # ticks))"
        using Some False t s by (cases ws) simp_all
      have b: "Suc n < length (t # ticks) \<longrightarrow>
               ?enc ((t # ticks) ! Suc n) = None \<or> (0 < Suc n \<and> WriteErr env (k + Suc n - 1))"
      proof
        assume "Suc n < length (t # ticks)"
        then have "n < length ticks" by simp
        then have "?enc (ticks ! n) = None \<or> (0 < n \<and> WriteErr env (Suc k + n - 1))"
          using f by blast
        then show "?enc ((t # ticks) ! Suc n) = None \<or> (0 < Suc n \<and> WriteErr env (k + Suc n - 1))"
        proof
          assume "?enc (ticks ! n) = None"
          then show ?thesis by simp
        next
          assume "0 < n \<and> WriteErr env (Suc k + n - 1)"
          then have "WriteErr env (k + Suc n - 1)" by (cases n) simp_all
          then show ?thesis by simp
        qed
      qed
      have c: "\<forall>j. Suc j < Suc n \<longrightarrow> \<not> WriteErr env (k + j)"
      proof (intro allI impI)
        fix j assume j: "Suc j < Suc n"
        show "\<not> WriteErr env (k + j)"
        proof (cases j)
          case 0
          then show ?thesis using False by simp
        next
          case (Suc j')
          then have "Suc j' < n" using j by simp
          then have "\<not> WriteErr env (Suc k + j')" using w by blast
          then show ?thesis using Suc by simp
        qed
      qed
      have "Suc n \<le> length (t # ticks)" using n by simp
      then show ?thesis using a b c by blast
    qed
  qed
qed

lemma streamed_append: "streamed (xs @ ys) = streamed xs @ streamed ys"
  by (induction xs rule: streamed.induct) simp_all

lemma traffic_cases:
  "traffic env r ticks =
     (if IsWebSocketUpgrade r then
        (if UpgradeOK env
         then [Upgrade, NewTicker Second] @ traffic_loop env True 0 ticks @ [TickerStop]
         else [Upgrade])
      else [HeaderSet ''Content-Type'' ''application/json'', RenderStatus StatusOK,
            NewTicker Second] @ traffic_loop env False 0 ticks @ [TickerStop])"
  by (simp add: traffic_def Let_def)

lemma streamed_traffic:
  "\<not> IsWebSocketUpgrade r \<or> UpgradeOK env \<Longrightarrow>
   streamed (traffic env r ticks) = streamed (traffic_loop env (IsWebSocketUpgrade r) 0 ticks)"
  by (auto simp add: traffic_cases streamed_append)

lemma getLogs_cases:
  "getLogs env r steps =
     (case LogLevelMapping env (levelText r) of
        None \<Rightarrow> [RenderStatus StatusBadRequest, RenderJSON (HTTPError_json (ErrBadRequest env))]
      | Some level \<Rightarrow>
          (if IsWebSocketUpgrade r then
             (if UpgradeOK env
              then [Upgrade] @ getLogs_loop env level True 0 (fst (chan_run [] steps))
              else [Upgrade])
           else [HeaderSet ''Content-Type'' ''application/json'', RenderStatus StatusOK] @
                getLogs_loop env level False 0 (fst (chan_run [] steps))))"
  by (simp add: getLogs_def Let_def split: option.splits)

lemma streamed_getLogs:
  "LogLevelMapping env (levelText r)
     = Some level \<Longrightarrow>
   streamed (getLogs env r steps) =
     (if IsWebSocketUpgrade r \<and> \<not> UpgradeOK env then []
      else streamed (getLogs_loop env level (IsWebSocketUpgrade r) 0 (fst (chan_run [] steps))))"
  by (auto simp add: getLogs_cases streamed_append)


lemma streamed_getLogs_subseq:
  assumes "LogLevelMapping env (levelText r) = Some level"
  shows "\<exists>evs. subseq evs (filter (\<lambda>e. level \<le> LogLevel e) (published steps)) \<and>
     map Some (streamed (getLogs env r steps)) =
       map (\<lambda>e. Encode env (JObject [(''type'', JString (EventType env e)),
                                     (''payload'', JString (Event.Payload e))])) evs"
proof (cases "IsWebSocketUpgrade r \<and> \<not> UpgradeOK env")
  case True
  then have "streamed (getLogs env r steps) = []" by (simp add: streamed_getLogs [OF assms])
  then show ?thesis by (intro exI [of _ "[]"]) simp
next
  case False
  let ?P = "\<lambda>e. level \<le> LogLevel e"
  let ?rcv = "fst (chan_run [] steps)"
  obtain n where n: "map Some (streamed (getLogs_loop env level (IsWebSocketUpgrade r) 0 ?rcv)) =
      map (\<lambda>e. Encode env (Log_json \<lparr>Log.Type = EventType env e, Log.Payload = Event.Payload e\<rparr>))
        (take n (filter ?P ?rcv))"
    using getLogs_loop_streamed [of env level "IsWebSocketUpgrade r" 0 ?rcv] by blast
  have "subseq ?rcv (published steps)" using chan_run_subseq [of "[]" steps] by simp
  then have "subseq (filter ?P ?rcv) (filter ?P (published steps))" by (rule subseq_filter)
  moreover have "subseq (take n (filter ?P ?rcv)) (filter ?P ?rcv)"
    using take_is_prefix prefix_imp_subseq by blast
  ultimately have s: "subseq (take n (filter ?P ?rcv)) (filter ?P (published steps))"
    using subseq_order.order_trans by blast
  have "map Some (streamed (getLogs env r steps)) =
      map (\<lambda>e. Encode env (JObject [(''type'', JString (EventType env e)),
                                    (''payload'', JString (Event.Payload e))]))
        (take n (filter ?P ?rcv))"
    using n False by (auto simp add: streamed_getLogs [OF assms] Log_json_def)
  then show ?thesis using s by blast
qed











lemma levelText_default: "Get (Query r) ''level'' = [] \<Longrightarrow> levelText r = ''info''"
  by (simp add: levelText_def)

lemma levelText_info: "levelText (r\<lparr>Query := (Query r)(''level'' \<mapsto> [''info''])\<rparr>) = ''info''"
  by (simp add: levelText_def Get_def)

lemma getLogs_level_only:
  "levelText r = levelText r' \<Longrightarrow> IsWebSocketUpgrade r = IsWebSocketUpgrade r' \<Longrightarrow>
   getLogs env r steps = getLogs env r' steps"
  by (simp add: getLogs_cases split: option.splits)

lemma subseq_filter_all:
  assumes "subseq evs (filter P xs)"
  shows "\<forall>e \<in> set evs. P e"
proof
  fix e assume "e \<in> set evs"
  then obtain y where "y \<in> set (filter P xs)" and "e = y"
    using list_emb_set [OF assms] by blast
  then show "P e" by simp
qed

section \<open>Authentication\<close>

text \<open>
  Claim C1, as the specification states it, fails: with the secret \<open>s\<close>, a WebSocket
  upgrade whose \<open>Authorization\<close> header is \<open>Bearer s\<close> and whose \<open>token\<close>
  parameter is \<open>x\<close> is admitted by the specification's rule, and the middleware answers
  it with 401 without running the handler.
\<close>

theorem authentication_counterexample:
  "serverSecret st0 \<noteq> [] \<and> spec_admits (serverSecret st0) req_ws_wrong_token \<and>
   authentication st0 (version ''v1'') req_ws_wrong_token =
     [RenderStatus 401, RenderJSON (JObject [(''message'', JString ''Unauthorized'')])] \<and>
   authentication st0 (version ''v1'') req_ws_wrong_token \<noteq> version ''v1'' req_ws_wrong_token"
  by (simp add: st0_def req_ws_wrong_token_def spec_admits_def Get_def authentication_def
      version_def StatusUnauthorized_def HTTPError_json_def ErrUnauthorized_def)

text \<open>
  Claim C1, amended: when a non-empty secret is configured, a WebSocket upgrade request
  with a non-empty \<open>token\<close> query parameter is admitted to the handler exactly when the
  token equals the secret, whatever its headers; any other request is admitted exactly
  when its \<open>Authorization\<close> header is \<open>Bearer <secret>\<close>. Every request that is not
  admitted is answered with status 401 and the JSON body \<open>{"message": "Unauthorized"}\<close>,
  whatever the handler is: the handler does not run.
\<close>

theorem authentication_secret:
  assumes "serverSecret st \<noteq> []"
  shows "authentication st next r =
     (if (if IsWebSocketUpgrade r \<and> Get (Query r) ''token'' \<noteq> []
          then Get (Query r) ''token'' = serverSecret st
          else Get (Header r) ''Authorization'' = ''Bearer '' @ serverSecret st)
      then next r
      else [RenderStatus 401, RenderJSON (JObject [(''message'', JString ''Unauthorized'')])])"
proof (cases "IsWebSocketUpgrade r \<and> Get (Query r) ''token'' \<noteq> []")
  case True
  then show ?thesis using assms
    by (simp add: authentication_def StatusUnauthorized_def HTTPError_json_def ErrUnauthorized_def)
next
  case False
  obtain b a f where c: "Cut (Get (Header r) ''Authorization'') '' '' = (b, a, f)"
    by (cases "Cut (Get (Header r) ''Authorization'') '' ''") auto
  have k: "(b = ''Bearer'' \<and> f \<and> a = serverSecret st) \<longleftrightarrow>
             Get (Header r) ''Authorization'' = ''Bearer '' @ serverSecret st"
    using Cut_Bearer [where header = "Get (Header r) ''Authorization''"
        and secret = "serverSecret st"] c
    by simp
  have "authentication st next r =
          (if b \<noteq> ''Bearer'' \<or> \<not> f \<or> a \<noteq> serverSecret st
           then [RenderStatus 401, RenderJSON (JObject [(''message'', JString ''Unauthorized'')])]
           else next r)"
    using False assms c
    by (auto simp add: authentication_def StatusUnauthorized_def HTTPError_json_def
        ErrUnauthorized_def)
  then show ?thesis using False k by auto
qed

theorem authentication_secret_witness:
  "serverSecret st0 \<noteq> [] \<and>
   authentication st0 (version ''v1'') req_bearer = version ''v1'' req_bearer \<and>
   authentication st0 (version ''v1'') req_ws_token = version ''v1'' req_ws_token \<and>
   authentication st0 (version ''v1'') req_plain =
     [RenderStatus 401, RenderJSON (JObject [(''message'', JString ''Unauthorized'')])]"
  using authentication_secret [of st0 "version ''v1''" req_bearer]
    authentication_secret [of st0 "version ''v1''" req_ws_token]
    authentication_secret [of st0 "version ''v1''" req_plain]
  by (simp add: st0_def req_bearer_def req_plain_def req_ws_token_def Get_def)

text \<open>
  Claim C4: when the configured secret is the empty string, the middleware forwards
  every request to its handler, whatever the request's \<open>Authorization\<close> header and
  \<open>token\<close> parameter are.
\<close>

theorem authentication_disabled:
  "serverSecret st = [] \<Longrightarrow> authentication st next r = next r"
  by (simp add: authentication_def)

theorem authentication_disabled_witness:
  "serverSecret st_open = [] \<and>
   authentication st_open (version ''v1'') req_ws_wrong_token = version ''v1'' req_ws_wrong_token \<and>
   authentication st_open (version ''v1'') req_plain =
     [RenderJSON (JObject [(''version'', JString ''v1'')])]"
  using authentication_disabled [of st_open "version ''v1''" req_ws_wrong_token]
    authentication_disabled [of st_open "version ''v1''" req_plain]
  by (simp add: st_open_def version_def)

section \<open>\<open>Start\<close>\<close>

text \<open>
  Claim C8: once a server address has been recorded, a call of \<open>Start\<close> with any
  address and secret returns at once and leaves the whole state as it was: the recorded
  address and secret, the servers started with their routers, and the log.
\<close>

theorem Start_idempotent:
  "serverAddr st \<noteq> [] \<Longrightarrow> Start net addr secret st = st"
  by (simp add: Start_def)

theorem Start_idempotent_witness:
  "serverAddr st0 \<noteq> [] \<and> Start net0 '':7890'' ''other'' st0 = st0 \<and>
   serverAddr (Start net0 '':7890'' ''other'' st0) = ''127.0.0.1:9090'' \<and>
   serverSecret (Start net0 '':7890'' ''other'' st0) = ''s'' \<and>
   serving (Start net0 '':7890'' ''other'' st0) = []"
  using Start_idempotent [of st0 net0 "'':7890''" "''other''"]
  by (simp add: st0_def)

section \<open>The traffic stream\<close>

text \<open>
  Claim C5: on a connection of \<open>GET /traffic\<close> (a request that is no WebSocket
  upgrade, or one whose handshake succeeds) the handler creates a ticker of one second
  and, tick after tick, sends one JSON object with the integer fields \<open>up\<close> and
  \<open>down\<close> of the statistic manager's reading at that tick. It sends for the first
  \<open>n\<close> ticks, and \<open>n\<close> is short of the ticks observed only because the encoding of
  tick \<open>n\<close> failed or the write for tick \<open>n - 1\<close> failed; no earlier write failed.
\<close>

theorem traffic_stream:
  assumes "\<not> IsWebSocketUpgrade r \<or> UpgradeOK env"
  shows "\<exists>n\<le>length ticks.
     map Some (streamed (traffic env r ticks)) =
       map (\<lambda>(up, down).
              Encode env (JObject [(''up'', JInt (sint up)), (''down'', JInt (sint down))]))
         (take n ticks) \<and>
     (n < length ticks \<longrightarrow>
        (case ticks ! n of (up, down) \<Rightarrow>
           Encode env (JObject [(''up'', JInt (sint up)), (''down'', JInt (sint down))])) = None \<or>
        (0 < n \<and> WriteErr env (n - 1))) \<and>
     (\<forall>j. Suc j < n \<longrightarrow> \<not> WriteErr env j) \<and>
     NewTicker 1000000000 \<in> set (traffic env r ticks)"
proof -
  have t: "NewTicker 1000000000 \<in> set (traffic env r ticks)"
    using assms by (auto simp add: traffic_cases Second_def)
  show ?thesis
    using traffic_loop_streamed [of ticks env "IsWebSocketUpgrade r" 0] t
    by (simp add: streamed_traffic [OF assms] Traffic_json_def)
qed

theorem traffic_stream_witness:
  "\<not> IsWebSocketUpgrade req_plain \<and>
   streamed (traffic env0 req_plain [(1, 2), (3, 4)]) =
     [''{\"up\":1,\"down\":2}'' @ [CHR 0x0A], ''{\"up\":3,\"down\":4}'' @ [CHR 0x0A]] \<and>
   traffic env0 req_ws [(5, 6)] =
     [Upgrade, NewTicker 1000000000, WriteMessage 1 (''{\"up\":5,\"down\":6}'' @ [CHR 0x0A]),
      TickerStop]"
  using traffic_stream [of req_plain env0 "[(1, 2), (3, 4)]"]
  by (simp add: traffic_cases req_plain_def req_ws_def env0_def Encode_def Traffic_json_def
      itoa_def StatusOK_def Second_def TextMessage_def)

section \<open>The mode of a stream\<close>

text \<open>
  Claim C6: for \<open>/traffic\<close>, and for \<open>/logs\<close> once the level is accepted, the mode
  of the response follows the upgrade negotiation. A request that is a WebSocket upgrade
  is upgraded and every object of the stream is sent as one WebSocket text message (when
  the handshake fails the handler stops, and nothing is streamed). Any other request gets
  the header \<open>Content-Type: application/json\<close> and every object of the stream is one
  write followed by a flush. In both modes an object is sent as its JSON encoding
  followed by a newline.
\<close>

theorem stream_mode:
  "traffic env r ticks =
     (if IsWebSocketUpgrade r then
        (if UpgradeOK env
         then [Upgrade, NewTicker 1000000000] @
              map (WriteMessage 1) (streamed (traffic env r ticks)) @ [TickerStop]
         else [Upgrade])
      else [HeaderSet ''Content-Type'' ''application/json'', RenderStatus 200,
            NewTicker 1000000000] @
           concat (map (\<lambda>b. [Write b, Flush]) (streamed (traffic env r ticks))) @ [TickerStop]) \<and>
   (\<forall>b \<in> set (streamed (traffic env r ticks)).
      \<exists>v j. Marshal env v = Some j \<and> b = j @ [CHR 0x0A]) \<and>
   (LogLevelMapping env (levelText r)
      \<noteq> None \<longrightarrow>
    getLogs env r steps =
      (if IsWebSocketUpgrade r then
         (if UpgradeOK env
          then [Upgrade] @ map (WriteMessage 1) (streamed (getLogs env r steps))
          else [Upgrade])
       else [HeaderSet ''Content-Type'' ''application/json'', RenderStatus 200] @
            concat (map (\<lambda>b. [Write b, Flush]) (streamed (getLogs env r steps)))) \<and>
    (\<forall>b \<in> set (streamed (getLogs env r steps)).
       \<exists>v j. Marshal env v = Some j \<and> b = j @ [CHR 0x0A]))"
proof -
  have t1: "traffic env r ticks =
     (if IsWebSocketUpgrade r then
        (if UpgradeOK env
         then [Upgrade, NewTicker 1000000000] @
              map (WriteMessage 1) (streamed (traffic env r ticks)) @ [TickerStop]
         else [Upgrade])
      else [HeaderSet ''Content-Type'' ''application/json'', RenderStatus 200,
            NewTicker 1000000000] @
           concat (map (\<lambda>b. [Write b, Flush]) (streamed (traffic env r ticks))) @ [TickerStop])"
  proof (cases "IsWebSocketUpgrade r")
    case True
    then show ?thesis
      using traffic_loop_ws [of env 0 ticks]
      by (simp add: traffic_cases streamed_append Second_def TextMessage_def)
  next
    case False
    then show ?thesis
      using traffic_loop_http [of env 0 ticks]
      by (simp add: traffic_cases streamed_append Second_def StatusOK_def)
  qed
  have t2: "\<forall>b \<in> set (streamed (traffic env r ticks)).
      \<exists>v j. Marshal env v = Some j \<and> b = j @ [CHR 0x0A]"
    using traffic_loop_lines [of _ env _ 0 ticks]
    by (auto simp add: traffic_cases streamed_append split: if_splits)
  have g: "LogLevelMapping env (levelText r)
      \<noteq> None \<longrightarrow>
    getLogs env r steps =
      (if IsWebSocketUpgrade r then
         (if UpgradeOK env
          then [Upgrade] @ map (WriteMessage 1) (streamed (getLogs env r steps))
          else [Upgrade])
       else [HeaderSet ''Content-Type'' ''application/json'', RenderStatus 200] @
            concat (map (\<lambda>b. [Write b, Flush]) (streamed (getLogs env r steps)))) \<and>
    (\<forall>b \<in> set (streamed (getLogs env r steps)).
       \<exists>v j. Marshal env v = Some j \<and> b = j @ [CHR 0x0A])"
  proof
    assume "LogLevelMapping env (levelText r) \<noteq> None"
    then obtain level where l: "LogLevelMapping env (levelText r) = Some level"
      by blast
    have g1: "getLogs env r steps =
      (if IsWebSocketUpgrade r then
         (if UpgradeOK env
          then [Upgrade] @ map (WriteMessage 1) (streamed (getLogs env r steps))
          else [Upgrade])
       else [HeaderSet ''Content-Type'' ''application/json'', RenderStatus 200] @
            concat (map (\<lambda>b. [Write b, Flush]) (streamed (getLogs env r steps))))"
    proof (cases "IsWebSocketUpgrade r")
      case True
      then show ?thesis
        using getLogs_loop_ws [of env level 0 "fst (chan_run [] steps)"] l
        by (simp add: getLogs_cases streamed_append TextMessage_def)
    next
      case False
      then show ?thesis
        using getLogs_loop_http [of env level 0 "fst (chan_run [] steps)"] l
        by (simp add: getLogs_cases streamed_append StatusOK_def)
    qed
    have g2: "\<forall>b \<in> set (streamed (getLogs env r steps)).
       \<exists>v j. Marshal env v = Some j \<and> b = j @ [CHR 0x0A]"
      using getLogs_loop_lines [of _ env level _ 0 "fst (chan_run [] steps)"]
      by (auto simp add: streamed_getLogs [OF l] split: if_splits)
    show "getLogs env r steps =
      (if IsWebSocketUpgrade r then
         (if UpgradeOK env
          then [Upgrade] @ map (WriteMessage 1) (streamed (getLogs env r steps))
          else [Upgrade])
       else [HeaderSet ''Content-Type'' ''application/json'', RenderStatus 200] @
            concat (map (\<lambda>b. [Write b, Flush]) (streamed (getLogs env r steps)))) \<and>
    (\<forall>b \<in> set (streamed (getLogs env r steps)).
       \<exists>v j. Marshal env v = Some j \<and> b = j @ [CHR 0x0A])"
      using g1 g2 by blast
  qed
  show ?thesis using t1 t2 g by blast
qed

theorem stream_mode_witness:
  "LogLevelMapping env0 (levelText req_plain) \<noteq> None \<and>
   LogLevelMapping env0 (levelText req_ws) \<noteq> None \<and>
   traffic env0 req_ws [(5, 6)] =
     [Upgrade, NewTicker 1000000000, WriteMessage 1 (''{\"up\":5,\"down\":6}'' @ [CHR 0x0A]),
      TickerStop] \<and>
   traffic env0 req_plain [(5, 6)] =
     [HeaderSet ''Content-Type'' ''application/json'', RenderStatus 200, NewTicker 1000000000,
      Write (''{\"up\":5,\"down\":6}'' @ [CHR 0x0A]), Flush, TickerStop] \<and>
   getLogs env0 req_ws [Publish ev_a, Receive] =
     [Upgrade, WriteMessage 1 (''{\"type\":\"info\",\"payload\":\"a\"}'' @ [CHR 0x0A])] \<and>
   getLogs env0 req_plain [Publish ev_a, Receive] =
     [HeaderSet ''Content-Type'' ''application/json'', RenderStatus 200,
      Write (''{\"type\":\"info\",\"payload\":\"a\"}'' @ [CHR 0x0A]), Flush] \<and>
   traffic env1 req_ws [(5, 6)] = [Upgrade] \<and>
   getLogs env1 req_ws [Publish ev_a, Receive] = [Upgrade]"
  using stream_mode [of env0 req_ws "[(5, 6)]" "[Publish ev_a, Receive]"]
    stream_mode [of env0 req_plain "[(5, 6)]" "[Publish ev_a, Receive]"]
    stream_mode [of env1 req_ws "[(5, 6)]" "[Publish ev_a, Receive]"]
  by (simp add: traffic_cases getLogs_cases levelText_def Get_def req_plain_def req_ws_def
      env0_def env1_def Encode_def Traffic_json_def Log_json_def itoa_def StatusOK_def
      Second_def TextMessage_def ev_a_def forward_eq capacity_def level_name_def)

section \<open>The log stream\<close>




text \<open>
  Claim C10: a \<open>GET /logs\<close> request whose \<open>level\<close> parameter is absent or empty is
  handled exactly as the same request with \<open>level=info\<close>; and with the level that the
  table gives for \<open>info\<close>, only events at or above that level are streamed.
\<close>

theorem getLogs_default_level:
  assumes "Get (Query r) ''level'' = []"
  shows "getLogs env r steps = getLogs env (r\<lparr>Query := (Query r)(''level'' \<mapsto> [''info''])\<rparr>) steps \<and>
    (\<forall>info. LogLevelMapping env ''info'' = Some info \<longrightarrow>
       (\<exists>evs. subseq evs (published steps) \<and> (\<forall>e \<in> set evs. info \<le> LogLevel e) \<and>
          map Some (streamed (getLogs env r steps)) =
            map (\<lambda>e. Encode env (JObject [(''type'', JString (EventType env e)),
                                          (''payload'', JString (Event.Payload e))])) evs))"
proof
  show "getLogs env r steps = getLogs env (r\<lparr>Query := (Query r)(''level'' \<mapsto> [''info''])\<rparr>) steps"
    by (rule getLogs_level_only) (simp_all add: levelText_default [OF assms] levelText_info)
next
  show "\<forall>info. LogLevelMapping env ''info'' = Some info \<longrightarrow>
       (\<exists>evs. subseq evs (published steps) \<and> (\<forall>e \<in> set evs. info \<le> LogLevel e) \<and>
          map Some (streamed (getLogs env r steps)) =
            map (\<lambda>e. Encode env (JObject [(''type'', JString (EventType env e)),
                                          (''payload'', JString (Event.Payload e))])) evs)"
  proof (intro allI impI)
    fix info assume "LogLevelMapping env ''info'' = Some info"
    then have l: "LogLevelMapping env (levelText r) = Some info"
      by (simp add: levelText_default [OF assms])
    obtain evs where s: "subseq evs (filter (\<lambda>e. info \<le> LogLevel e) (published steps))"
      and m: "map Some (streamed (getLogs env r steps)) =
            map (\<lambda>e. Encode env (JObject [(''type'', JString (EventType env e)),
                                          (''payload'', JString (Event.Payload e))])) evs"
      using streamed_getLogs_subseq [OF l, of steps] by blast
    have "subseq evs (published steps)"
      using s subseq_filter_left subseq_order.order_trans by blast
    then show "\<exists>evs. subseq evs (published steps) \<and> (\<forall>e \<in> set evs. info \<le> LogLevel e) \<and>
          map Some (streamed (getLogs env r steps)) =
            map (\<lambda>e. Encode env (JObject [(''type'', JString (EventType env e)),
                                          (''payload'', JString (Event.Payload e))])) evs"
      using subseq_filter_all [OF s] m by blast
  qed
qed

theorem getLogs_default_level_witness:
  "Get (Query req_plain) ''level'' = [] \<and> Get (Query req_empty_level) ''level'' = [] \<and>
   LogLevelMapping env0 ''info'' = Some 1 \<and>
   getLogs env0 req_empty_level [Publish ev_d, Publish ev_a, Receive, Receive] =
     getLogs env0 (req_empty_level\<lparr>Query := (Query req_empty_level)(''level'' \<mapsto> [''info''])\<rparr>)
       [Publish ev_d, Publish ev_a, Receive, Receive] \<and>
   streamed (getLogs env0 req_plain [Publish ev_d, Publish ev_a, Receive, Receive]) =
     [''{\"type\":\"info\",\"payload\":\"a\"}'' @ [CHR 0x0A]]"
  using getLogs_default_level [of req_plain env0 "[Publish ev_d, Publish ev_a, Receive, Receive]"]
    getLogs_default_level [of req_empty_level env0
      "[Publish ev_d, Publish ev_a, Receive, Receive]"]
  by (simp add: getLogs_cases levelText_def Get_def req_plain_def req_empty_level_def
      env0_def Encode_def Log_json_def StatusOK_def ev_a_def ev_d_def forward_eq capacity_def
      level_name_def)

section \<open>The subscriber's queue\<close>

text \<open>
  Claim C2, as the specification states it, fails: a publish on a full queue of 1024
  events leaves the queue as it is and drops the new event, where the specification's
  reading drops the oldest event and queues the new one.
\<close>

theorem forward_counterexample:
  "capacity = 1024 \<and> length (replicate capacity ev_a) = capacity \<and>
   forward (replicate capacity ev_a) ev_b = replicate capacity ev_a \<and>
   spec_forward (replicate capacity ev_a) ev_b = tl (replicate capacity ev_a) @ [ev_b] \<and>
   forward (replicate capacity ev_a) ev_b \<noteq> spec_forward (replicate capacity ev_a) ev_b"
proof -
  have c: "capacity = 1024" by (simp add: capacity_def)
  have f: "forward (replicate capacity ev_a) ev_b = replicate capacity ev_a"
    by (simp add: forward_eq)
  have s: "spec_forward (replicate capacity ev_a) ev_b = tl (replicate capacity ev_a) @ [ev_b]"
    by (simp add: spec_forward_def)
  have "last (replicate capacity ev_a) = ev_a" using c by simp
  moreover have "last (tl (replicate capacity ev_a) @ [ev_b]) = ev_b" by simp
  moreover have "ev_a \<noteq> ev_b" by (simp add: ev_a_def ev_b_def)
  ultimately have "replicate capacity ev_a \<noteq> tl (replicate capacity ev_a) @ [ev_b]" by metis
  then show ?thesis using c f s by simp
qed

text \<open>
  Claim C2, amended: the queue of a subscriber never holds more than 1024 events,
  whatever the run; a publish appends the event when the queue is not full, and drops
  the new event, leaving the queued events as they are, when it is full: there a plain
  send would block, and the forwarding step returns all the same, so the publisher never
  waits for the subscriber.
\<close>

theorem forward_bounded:
  "(length ch \<le> 1024 \<longrightarrow>
      length (forward ch e) \<le> 1024 \<and> length (snd (chan_run ch steps)) \<le> 1024) \<and>
   (length ch < 1024 \<longrightarrow> forward ch e = ch @ [e]) \<and>
   (1024 \<le> length ch \<longrightarrow> send ch e = None \<and> forward ch e = ch) \<and>
   length (snd (chan_run [] steps)) \<le> 1024"
  using chan_run_bounded [of ch steps] chan_run_bounded [of "[]" steps] forward_length [of ch e]
  by (simp add: forward_eq send_def capacity_def)

theorem forward_bounded_witness:
  "length [ev_a] < 1024 \<and> forward [ev_a] ev_b = [ev_a, ev_b] \<and>
   length (replicate 1024 ev_a) = 1024 \<and>
   send (replicate 1024 ev_a) ev_b = None \<and>
   forward (replicate 1024 ev_a) ev_b = replicate 1024 ev_a \<and>
   snd (chan_run [ev_a] [Publish ev_b, Receive, Publish ev_d]) = [ev_b, ev_d]"
  using forward_bounded [of "[ev_a]" ev_b "[Publish ev_b, Receive, Publish ev_d]"]
    forward_bounded [of "replicate 1024 ev_a" ev_b "[]"]
  by (simp add: forward_eq capacity_def)

section \<open>The metadata of inbound connections\<close>

text \<open>
  Claim C7: the metadata that \<open>NewHTTP\<close> hands to the connection context has network
  TCP and inbound kind HTTP, its destination fields are the ones of the parsed SOCKS
  address, and when the source address parses its source address and port are the parsed
  ones; \<open>NewSocket\<close> does the same with the supplied inbound kind and the remote address
  of the connection.
\<close>

theorem inbound_metadata:
  "(\<exists>m. NewHTTP d target source conn = NewConnContext d conn m \<and>
        NetWork m = TCP \<and> Metadata.Type m = HTTP \<and>
        dst_host m = dst_host (parseSocksAddr d target) \<and>
        dst_ip m = dst_ip (parseSocksAddr d target) \<and>
        dst_port m = dst_port (parseSocksAddr d target) \<and>
        process_name m = process_name (parseSocksAddr d target) \<and>
        (\<forall>ip port. parseAddr d (String source) = Inr (ip, port) \<longrightarrow>
           SrcIP m = ip \<and> SrcPort m = port)) \<and>
   (\<exists>m. NewSocket d target conn kind = NewConnContext d conn m \<and>
        NetWork m = TCP \<and> Metadata.Type m = kind \<and>
        dst_host m = dst_host (parseSocksAddr d target) \<and>
        dst_ip m = dst_ip (parseSocksAddr d target) \<and>
        dst_port m = dst_port (parseSocksAddr d target) \<and>
        process_name m = process_name (parseSocksAddr d target) \<and>
        (\<forall>ip port. parseAddr d (String (RemoteAddr conn)) = Inr (ip, port) \<longrightarrow>
           SrcIP m = ip \<and> SrcPort m = port))"
proof
  show "\<exists>m. NewHTTP d target source conn = NewConnContext d conn m \<and>
        NetWork m = TCP \<and> Metadata.Type m = HTTP \<and>
        dst_host m = dst_host (parseSocksAddr d target) \<and>
        dst_ip m = dst_ip (parseSocksAddr d target) \<and>
        dst_port m = dst_port (parseSocksAddr d target) \<and>
        process_name m = process_name (parseSocksAddr d target) \<and>
        (\<forall>ip port. parseAddr d (String source) = Inr (ip, port) \<longrightarrow>
           SrcIP m = ip \<and> SrcPort m = port)"
    by (cases "parseAddr d (String source)") (auto simp add: NewHTTP_def)
next
  show "\<exists>m. NewSocket d target conn kind = NewConnContext d conn m \<and>
        NetWork m = TCP \<and> Metadata.Type m = kind \<and>
        dst_host m = dst_host (parseSocksAddr d target) \<and>
        dst_ip m = dst_ip (parseSocksAddr d target) \<and>
        dst_port m = dst_port (parseSocksAddr d target) \<and>
        process_name m = process_name (parseSocksAddr d target) \<and>
        (\<forall>ip port. parseAddr d (String (RemoteAddr conn)) = Inr (ip, port) \<longrightarrow>
           SrcIP m = ip \<and> SrcPort m = port)"
    by (cases "parseAddr d (String (RemoteAddr conn))") (auto simp add: NewSocket_def)
qed

theorem inbound_metadata_witness:
  "parseAddr deps0 (String addr_ok) = Inr ([1, 2, 3, 4], ''5678'') \<and>
   NewHTTP deps0 [1, 2, 3, 4, 1, 187] addr_ok conn_bad =
     Some (conn_bad,
       \<lparr>NetWork = TCP, Type = HTTP, SrcIP = [1, 2, 3, 4], SrcPort = ''5678'',
        dst_host = ''example.com'', dst_ip = [], dst_port = ''443'', process_name = []\<rparr>) \<and>
   NewSocket deps0 [1, 2, 3, 4, 1, 187] conn_ok SOCKS5 =
     Some (conn_ok,
       \<lparr>NetWork = TCP, Type = SOCKS5, SrcIP = [1, 2, 3, 4], SrcPort = ''5678'',
        dst_host = ''example.com'', dst_ip = [], dst_port = ''443'', process_name = []\<rparr>)"
  using inbound_metadata [of deps0 "[1, 2, 3, 4, 1, 187]" addr_ok conn_bad SOCKS5]
    inbound_metadata [of deps0 "[1, 2, 3, 4, 1, 187]" addr_ok conn_ok SOCKS5]
  by (simp add: NewHTTP_def NewSocket_def deps0_def addr_ok_def conn_ok_def)



end
